theory Spec2Isabelle
  imports Main "HOL-Library.Sublist" "HOL-Library.Word"
begin

section \<open>Anchored patterns of literals and greedy capture groups\<close>

text \<open>
  Both regular expressions of the repository are anchored at both ends (\<open>^ ... $\<close>) and are a
  sequence of literal texts and capture groups \<open>(C+)\<close> over a single character class:
  \<^item> \<open>^(\d+)\.dkr\.ecr\.([^.]+)\.amazonaws\.com$\<close> in \<open>proxyauth_ecr.go\<close>;
  \<^item> \<open>^/docker/registry/v2/repositories/(.+)/_manifests/tags/(.+)/current/link$\<close> in
    the storage middleware.
  Go strings are byte sequences, so a string is a \<open>char list\<close>. The three classes are read
  on bytes: \<open>\d\<close> is an ASCII digit, \<open>[^.]\<close> is anything but a dot (a negated class matches
  a newline in Go), and \<open>.\<close> is anything but a newline. Every literal of the two patterns
  starts with an ASCII byte, which is never part of a longer UTF-8 sequence, so reading the
  classes bytewise matches the same texts as reading them on runes.
\<close>

datatype cclass = Digit | NotDot | AnyNotNL

fun in_class :: "cclass \<Rightarrow> char \<Rightarrow> bool" where
  "in_class Digit c = (c \<in> set ''0123456789'')"
| "in_class NotDot c = (c \<noteq> CHR ''.'')"
| "in_class AnyNotNL c = (c \<noteq> CHR 0x0A)"

datatype piece = Lit string | Group cclass

text \<open>
  Go's \<open>regexp\<close> returns the match a backtracking search finds first. A greedy group first
  takes the longest run of its class and gives characters back one at a time until the rest of
  the pattern matches; \<open>tryLens k s n\<close> tries the group lengths \<open>n, n - 1, ..., 1\<close> in that
  order, \<open>k\<close> being the match of the rest of the pattern. The result is the list of captured
  texts, in the order of the groups.
\<close>

fun tryLens :: "(string \<Rightarrow> string list option) \<Rightarrow> string \<Rightarrow> nat \<Rightarrow> string list option" where
  "tryLens k s 0 = None"
| "tryLens k s (Suc n) =
     (case k (drop (Suc n) s) of
        Some caps \<Rightarrow> Some (take (Suc n) s # caps)
      | None \<Rightarrow> tryLens k s n)"

fun matchPieces :: "piece list \<Rightarrow> string \<Rightarrow> string list option" where
  "matchPieces [] s = (if s = [] then Some [] else None)"
| "matchPieces (Lit l # ps) s =
     (if take (length l) s = l then matchPieces ps (drop (length l) s) else None)"
| "matchPieces (Group c # ps) s =
     tryLens (matchPieces ps) s (length (takeWhile (in_class c) s))"

text \<open>
  \<open>Regexp.FindStringSubmatch\<close>: the whole match followed by the captured groups, and the nil
  slice (of length 0) when the text does not match. \<open>Regexp.MatchString\<close>: whether the text
  matches.
\<close>

definition FindStringSubmatch :: "piece list \<Rightarrow> string \<Rightarrow> string list" where
  "FindStringSubmatch re s =
     (case matchPieces re s of None \<Rightarrow> [] | Some caps \<Rightarrow> s # caps)"

definition MatchString :: "piece list \<Rightarrow> string \<Rightarrow> bool" where
  "MatchString re s = (matchPieces re s \<noteq> None)"

definition ecrURLPattern :: "piece list" where
  "ecrURLPattern = [Group Digit, Lit ''.dkr.ecr.'', Group NotDot, Lit ''.amazonaws.com'']"

definition importKeyPattern :: "piece list" where
  "importKeyPattern =
     [Lit ''/docker/registry/v2/repositories/'', Group AnyNotNL,
      Lit ''/_manifests/tags/'', Group AnyNotNL, Lit ''/current/link'']"

text \<open>
  What an anchored match is, without the search order: the text is the concatenation of the
  literals and of one non-empty run of the class for each group.
\<close>

fun splits :: "piece list \<Rightarrow> string \<Rightarrow> string list \<Rightarrow> bool" where
  "splits [] s caps = (s = [] \<and> caps = [])"
| "splits (Lit l # ps) s caps = (take (length l) s = l \<and> splits ps (drop (length l) s) caps)"
| "splits (Group c # ps) s caps =
     (case caps of
        [] \<Rightarrow> False
      | t # caps' \<Rightarrow> t \<noteq> [] \<and> list_all (in_class c) t \<and> take (length t) s = t \<and>
                    splits ps (drop (length t) s) caps')"


section \<open>Registry URL classification (\<open>registry/proxy/proxyauth_ecr.go\<close>)\<close>

text \<open>
  \<open>url.Parse\<close> belongs to Go's standard library. It is a parameter of the two functions that
  call it: it gives either the text of its error or a URL, of which only \<open>Host\<close> is read.
  Go's \<open>error\<close> values are modelled by their message.
\<close>

record URL =
  Host :: string

type_synonym url_parse = "string \<Rightarrow> string + URL"

definition parseECRURL :: "url_parse \<Rightarrow> string \<Rightarrow> string + (string \<times> string)" where
  "parseECRURL Parse registryURL =
     (case Parse registryURL of
        Inl err \<Rightarrow> Inl (''invalid registry URL: '' @ err)
      | Inr u \<Rightarrow>
          (let matches = FindStringSubmatch ecrURLPattern (Host u) in
           if length matches \<noteq> 3
           then Inl (''URL does not match ECR registry pattern: '' @ Host u)
           else Inr (matches ! 1, matches ! 2)))"

definition isECRURL :: "url_parse \<Rightarrow> string \<Rightarrow> bool" where
  "isECRURL Parse registryURL =
     (case Parse registryURL of
        Inl err \<Rightarrow> False
      | Inr u \<Rightarrow> MatchString ecrURLPattern (Host u))"

text \<open>
  The host shape of the registry, as the specification writes it:
  \<open>accountID.dkr.ecr.region.amazonaws.com\<close>, the account id a non-empty text of digits and
  the region a non-empty text without a dot.
\<close>

definition ecrHost :: "string \<Rightarrow> string \<Rightarrow> string" where
  "ecrHost accountID region = accountID @ ''.dkr.ecr.'' @ region @ ''.amazonaws.com''"

definition ecrHostParts :: "string \<Rightarrow> string \<Rightarrow> bool" where
  "ecrHostParts accountID region =
     (accountID \<noteq> [] \<and> list_all (in_class Digit) accountID \<and>
      region \<noteq> [] \<and> list_all (in_class NotDot) region)"

text \<open>
  A stand-in for \<open>url.Parse\<close> where a concrete parser is needed: it gives the hosts of the
  URLs of \<open>proxyauth_ecr_test.go\<close> and rejects every other text.
\<close>

definition testParse :: url_parse where
  "testParse s =
     (if s = ''https://123456789012.dkr.ecr.us-west-2.amazonaws.com''
      then Inr \<lparr>Host = ''123456789012.dkr.ecr.us-west-2.amazonaws.com''\<rparr>
      else if s = ''https://123456789012.dkr.ecr.eu-central-1.amazonaws.com/my-repo''
      then Inr \<lparr>Host = ''123456789012.dkr.ecr.eu-central-1.amazonaws.com''\<rparr>
      else if s = ''https://registry-1.docker.io''
      then Inr \<lparr>Host = ''registry-1.docker.io''\<rparr>
      else if s = ''https://my-registry.com''
      then Inr \<lparr>Host = ''my-registry.com''\<rparr>
      else if s = ''not-a-url''
      then Inr \<lparr>Host = []\<rparr>
      else Inl ''missing protocol scheme'')"

section \<open>The credential cache (\<open>ecrCredentials.Basic\<close>)\<close>

text \<open>
  A \<open>time.Time\<close> is a point on the time line, in nanoseconds since the Unix epoch; a
  \<open>time.Duration\<close> is a signed 64-bit count of nanoseconds. The range of \<open>time.Time\<close>
  (64-bit seconds) is not modelled: times are unbounded integers.
\<close>

type_synonym Time = int
type_synonym Duration = "64 word"

definition Hour :: Duration where
  "Hour = 3600000000000"

definition Add :: "Time \<Rightarrow> Duration \<Rightarrow> Time" where
  "Add t d = t + sint d"

definition Before :: "Time \<Rightarrow> Time \<Rightarrow> bool" where
  "Before t u = (t < u)"

text \<open>The zero \<open>time.Time\<close>, January 1 of year 1, which \<open>aws.TimeValue\<close> gives for nil.\<close>

definition zeroTime :: Time where
  "zeroTime = - 62135596800000000000"

definition StringValue :: "string option \<Rightarrow> string" where
  "StringValue v = (case v of None \<Rightarrow> [] | Some s \<Rightarrow> s)"

definition TimeValue :: "Time option \<Rightarrow> Time" where
  "TimeValue v = (case v of None \<Rightarrow> zeroTime | Some t \<Rightarrow> t)"

text \<open>
  \<open>strings.SplitN(s, sep, 2)\<close> for a separator of one byte: the text before the first
  separator and the text after it, or the text alone when it has no separator.
\<close>

fun Index :: "string \<Rightarrow> char \<Rightarrow> nat option" where
  "Index [] sep = None"
| "Index (c # cs) sep =
     (if c = sep then Some 0 else (case Index cs sep of None \<Rightarrow> None | Some i \<Rightarrow> Some (Suc i)))"

definition SplitN2 :: "string \<Rightarrow> char \<Rightarrow> string list" where
  "SplitN2 s sep = (case Index s sep of None \<Rightarrow> [s] | Some m \<Rightarrow> [take m s, drop (m + 1) s])"

text \<open>
  The fields of \<open>ecrCredentials\<close> but the mutex and the client. A pointer that may be nil is
  an \<open>option\<close>.
\<close>

record ecrCredentials =
  registryID :: string
  lifetime :: "Duration option"
  username :: string
  password :: string
  expiry :: Time

record AuthorizationData =
  AuthorizationToken :: "string option"
  ExpiresAt :: "Time option"

text \<open>
  What \<open>Basic\<close> reads from outside: the clock, the answer of the ECR client to
  \<open>GetAuthorizationToken\<close> for the given registry ids (the text of its error, or the list
  \<open>AuthorizationData\<close> of pointers of its output, which the SDK never leaves nil when the
  error is nil), and \<open>base64.StdEncoding.DecodeString\<close> (\<open>None\<close> when it returns an error).
\<close>

record outside =
  Now :: Time
  GetAuthorizationToken :: "string list \<Rightarrow> string + AuthorizationData option list"
  DecodeString :: "string \<Rightarrow> string option"

text \<open>
  A call of \<open>Basic\<close> either returns the pair of user name and password or panics on a nil
  entry of \<open>AuthorizationData\<close>. The model gives the result, the credentials the call
  leaves behind and the inputs of the calls to \<open>GetAuthorizationToken\<close> it made. The
  mutex is held for the whole call; writes to the log are left out.
\<close>

datatype basic_result = Return string string | NilDereference

definition Basic :: "outside \<Rightarrow> ecrCredentials \<Rightarrow> basic_result \<times> ecrCredentials \<times> string list list" where
  "Basic w c =
     (let now = Now w in
      if username c \<noteq> [] \<and> password c \<noteq> [] \<and> (lifetime c = None \<or> Before now (expiry c))
      then (Return (username c) (password c), c, [])
      else
        let input = (if registryID c \<noteq> [] then [registryID c] else []) in
        case GetAuthorizationToken w input of
          Inl err \<Rightarrow> (Return [] [], c, [input])
        | Inr authorizationData \<Rightarrow>
            if length authorizationData = 0 then (Return [] [], c, [input])
            else
              (case authorizationData ! 0 of
                 None \<Rightarrow> (NilDereference, c, [input])
               | Some authData \<Rightarrow>
                   let token = StringValue (AuthorizationToken authData);
                       expiresAt = TimeValue (ExpiresAt authData) in
                   case DecodeString w token of
                     None \<Rightarrow> (Return [] [], c, [input])
                   | Some decoded \<Rightarrow>
                       let parts = SplitN2 decoded CHR '':'' in
                       if length parts \<noteq> 2 then (Return [] [], c, [input])
                       else
                         let c1 = c\<lparr>username := parts ! 0, password := parts ! 1\<rparr>;
                             c2 = (case lifetime c1 of
                                     None \<Rightarrow> c1\<lparr>expiry := Add expiresAt (- Hour)\<rparr>
                                   | Some d \<Rightarrow>
                                       if 0 < sint d then c1\<lparr>expiry := Add now d\<rparr>
                                       else c1\<lparr>expiry := Add expiresAt (- Hour)\<rparr>)
                         in (Return (username c2) (password c2), c2, [input])))"

text \<open>
  The test of \<open>Basic\<close> for the cached pair and the registry ids it sends to the client, each
  on its own.
\<close>

definition valid :: "Time \<Rightarrow> ecrCredentials \<Rightarrow> bool" where
  "valid now c =
     (username c \<noteq> [] \<and> password c \<noteq> [] \<and> (lifetime c = None \<or> Before now (expiry c)))"

definition registryIds :: "ecrCredentials \<Rightarrow> string list" where
  "registryIds c = (if registryID c \<noteq> [] then [registryID c] else [])"

text \<open>
  Concrete surroundings for \<open>Basic\<close>: the credentials that \<open>configureECRAuth\<close> creates
  (only the registry id and the lifetime are set), a cached pair whose expiry has passed,
  without and with a configured lifetime, a decoder that knows the base64 texts of three tokens
  and rejects every other text, an outside with a fixed clock and a fixed answer of the ECR
  client, and the answer of the client with a token that decodes to \<open>AWS:new\<close>.
\<close>

definition newCredentials :: "string \<Rightarrow> Duration option \<Rightarrow> ecrCredentials" where
  "newCredentials accountID l =
     \<lparr>registryID = accountID, lifetime = l, username = [], password = [], expiry = zeroTime\<rparr>"

definition staleCredentials :: ecrCredentials where
  "staleCredentials =
     \<lparr>registryID = ''123456789012'', lifetime = None, username = ''AWS'', password = ''old'',
      expiry = 1000\<rparr>"

definition expiredCredentials :: ecrCredentials where
  "expiredCredentials =
     \<lparr>registryID = ''123456789012'', lifetime = Some 3600000000000, username = ''AWS'',
      password = ''old'', expiry = 1000\<rparr>"

definition testDecode :: "string \<Rightarrow> string option" where
  "testDecode token =
     (if token = ''QVdTOnNlY3JldHBhc3M6d2l0aDpjb2xvbnM='' then Some ''AWS:secretpass:with:colons''
      else if token = ''QVdTOm5ldw=='' then Some ''AWS:new''
      else if token = ''QVdT'' then Some ''AWS''
      else None)"

definition testOutside :: "Time \<Rightarrow> string + AuthorizationData option list \<Rightarrow> outside" where
  "testOutside now answer =
     \<lparr>Now = now, GetAuthorizationToken = (\<lambda>ids. answer), DecodeString = testDecode\<rparr>"

definition freshToken :: "string + AuthorizationData option list" where
  "freshToken =
     Inr [Some \<lparr>AuthorizationToken = Some ''QVdTOm5ldw=='', ExpiresAt = Some 43200000000000\<rparr>]"

section \<open>The lazy importer (\<open>ecrFetcher.GetContent\<close>)\<close>

text \<open>
  The importer acts on the wrapped storage driver and on the \<open>docker\<close> command. What they
  did so far is a list of events; the answer of the driver and of a command may depend on
  everything that happened before. A command is its argument vector, its result is the text of
  the error of \<open>Cmd.Run\<close> or \<open>None\<close> for nil. Writes to standard output and to the log
  are left out, and so is the \<open>aws\<close> command that \<open>pullAndImportFromECR\<close> builds and
  never runs.
\<close>

datatype event = DriverGetContent string | CmdRun "string list"

record surroundings =
  StorageDriver_GetContent :: "event list \<Rightarrow> string \<Rightarrow> string + string"
  Cmd_Run :: "event list \<Rightarrow> string list \<Rightarrow> string option"

record ecrFetcher =
  remote :: string
  local_host :: string

definition pullAndImportFromECR ::
    "surroundings \<Rightarrow> ecrFetcher \<Rightarrow> string \<Rightarrow> string \<Rightarrow> event list \<Rightarrow> string option \<times> event list" where
  "pullAndImportFromECR w m repo tag tr =
     (let fullImage = remote m @ ''/'' @ repo @ '':'' @ tag;
          pull = [''docker'', ''pull'', fullImage];
          tr1 = tr @ [CmdRun pull] in
      case Cmd_Run w tr pull of
        Some err \<Rightarrow> (Some err, tr1)
      | None \<Rightarrow>
          let localTag = local_host m @ ''/'' @ repo @ '':'' @ tag;
              tagImage = [''docker'', ''tag'', fullImage, localTag];
              tr2 = tr1 @ [CmdRun tagImage] in
          case Cmd_Run w tr1 tagImage of
            Some err \<Rightarrow> (Some err, tr2)
          | None \<Rightarrow>
              let push = [''docker'', ''push'', localTag];
                  tr3 = tr2 @ [CmdRun push] in
              case Cmd_Run w tr2 push of
                Some err \<Rightarrow> (Some err, tr3)
              | None \<Rightarrow> (None, tr3))"

definition GetContent ::
    "surroundings \<Rightarrow> ecrFetcher \<Rightarrow> string \<Rightarrow> event list \<Rightarrow> (string + string) \<times> event list" where
  "GetContent w d path tr =
     (let tr1 = tr @ [DriverGetContent path] in
      case StorageDriver_GetContent w tr path of
        Inr out \<Rightarrow> (Inr out, tr1)
      | Inl err \<Rightarrow>
          let matches = FindStringSubmatch importKeyPattern path in
          if length matches \<noteq> 3 then (Inl (''invalid path: '' @ path), tr1)
          else
            (case pullAndImportFromECR w d (matches ! 1) (matches ! 2) tr1 of
               (Some err', tr2) \<Rightarrow> (Inl (''failed to pull from ECR: '' @ err'), tr2)
             | (None, tr2) \<Rightarrow>
                 (StorageDriver_GetContent w tr2 path, tr2 @ [DriverGetContent path])))"

text \<open>
  Concrete surroundings for \<open>GetContent\<close>: a driver that finds nothing and a \<open>docker\<close>
  command that always fails, for a mirror of an ECR registry on a local host.
\<close>

definition nothingWorks :: surroundings where
  "nothingWorks =
     \<lparr>StorageDriver_GetContent = (\<lambda>tr path. Inl ''Path not found''),
      Cmd_Run = (\<lambda>tr cmd. Some ''exit status 1'')\<rparr>"

definition testFetcher :: ecrFetcher where
  "testFetcher =
     \<lparr>remote = ''123456789012.dkr.ecr.us-west-2.amazonaws.com'', local_host = ''localhost:5000''\<rparr>"

text \<open>
  The match of the key inside \<open>GetContent\<close>, on its own: the two captured groups, or
  \<open>None\<close> where \<open>GetContent\<close> gives the error \<open>invalid path\<close>.
\<close>

definition matchImportKey :: "string \<Rightarrow> (string \<times> string) option" where
  "matchImportKey path =
     (let matches = FindStringSubmatch importKeyPattern path in
      if length matches \<noteq> 3 then None else Some (matches ! 1, matches ! 2))"

text \<open>
  The keys that the pattern describes: the key of the current link of a tag of a repository,
  for a repository and a tag that are non-empty and have no newline.
\<close>

definition importKey :: "string \<Rightarrow> string \<Rightarrow> string" where
  "importKey repository tag =
     ''/docker/registry/v2/repositories/'' @ repository @ ''/_manifests/tags/'' @ tag @
     ''/current/link''"

definition importKeyParts :: "string \<Rightarrow> string \<Rightarrow> bool" where
  "importKeyParts repository tag =
     (repository \<noteq> [] \<and> list_all (in_class AnyNotNL) repository \<and>
      tag \<noteq> [] \<and> list_all (in_class AnyNotNL) tag)"

text \<open>
  The shape of a miss key as the specification writes it:
  \<open>/<prefix>/repositories/<repository>/_manifests/tags/<tag>/current/link\<close>, where the
  repository may contain path separators and the tag may not contain \<open>/\<close>. Nothing more is
  asked of the three texts, so a key outside this shape is outside every narrower reading of it.
\<close>

definition missKeyShape :: "string \<Rightarrow> bool" where
  "missKeyShape key =
     (\<exists>prefix repository tag.
        key = ''/'' @ prefix @ ''/repositories/'' @ repository @ ''/_manifests/tags/'' @ tag @
              ''/current/link'' \<and>
        CHR ''/'' \<notin> set tag)"

section \<open>The search finds exactly the anchored matches, longest group first\<close>

lemma tryLens_None_iff:
  "tryLens k s n = None \<longleftrightarrow> (\<forall>m. 1 \<le> m \<and> m \<le> n \<longrightarrow> k (drop m s) = None)"
proof (induction n)
  case 0
  then show ?case by simp
next
  case (Suc n)
  then show ?case
    by (auto split: option.splits simp: le_Suc_eq)
qed

lemma tryLens_not_None:
  "1 \<le> m \<Longrightarrow> m \<le> n \<Longrightarrow> k (drop m s) \<noteq> None \<Longrightarrow> tryLens k s n \<noteq> None"
  by (simp add: tryLens_None_iff) blast

lemma tryLens_SomeD:
  assumes "tryLens k s n = Some r"
  shows "\<exists>m caps. 1 \<le> m \<and> m \<le> n \<and> k (drop m s) = Some caps \<and> r = take m s # caps \<and>
           (\<forall>m'. m < m' \<and> m' \<le> n \<longrightarrow> k (drop m' s) = None)"
  using assms
proof (induction n)
  case 0
  then show ?case by simp
next
  case (Suc n)
  show ?case
  proof (cases "k (drop (Suc n) s)")
    case None
    with Suc.prems have "tryLens k s n = Some r" by simp
    from Suc.IH [OF this] obtain m caps where m: "1 \<le> m" "m \<le> n" "k (drop m s) = Some caps"
      "r = take m s # caps" "\<forall>m'. m < m' \<and> m' \<le> n \<longrightarrow> k (drop m' s) = None"
      by blast
    have "\<forall>m'. m < m' \<and> m' \<le> Suc n \<longrightarrow> k (drop m' s) = None"
      using m(5) None by (auto simp: le_Suc_eq)
    with m show ?thesis
      by (intro exI [of _ m] exI [of _ caps]) auto
  next
    case (Some caps)
    with Suc.prems have "r = take (Suc n) s # caps" by simp
    with Some show ?thesis
      by (intro exI [of _ "Suc n"] exI [of _ caps]) auto
  qed
qed


lemma matchPieces_splits: "matchPieces ps s = Some caps \<Longrightarrow> splits ps s caps"
proof (induction ps arbitrary: s caps)
  case Nil
  then show ?case by (simp split: if_splits)
next
  case (Cons p ps)
  show ?case
  proof (cases p)
    case (Lit l)
    with Cons show ?thesis by (simp split: if_splits)
  next
    case (Group c)
    with Cons.prems have "tryLens (matchPieces ps) s (length (takeWhile (in_class c) s)) = Some caps"
      by simp
    from tryLens_SomeD [OF this] obtain m caps' where m: "1 \<le> m"
      "m \<le> length (takeWhile (in_class c) s)" "matchPieces ps (drop m s) = Some caps'"
      "caps = take m s # caps'"
      by blast
    have "take m (xs @ ys) = take m xs" if "m \<le> length xs" for xs ys :: string
      using that by simp
    from this [of "takeWhile (in_class c) s" "dropWhile (in_class c) s"] m(2)
    have tk: "take m s = take m (takeWhile (in_class c) s)"
      by simp
    have "list_all (in_class c) (take m s)"
      unfolding tk list_all_iff by (auto dest: in_set_takeD set_takeWhileD)
    moreover have "length (take m s) = m"
      using m(2) length_takeWhile_le [of "in_class c" s] by simp
    moreover have "take m s \<noteq> []" using calculation(2) m(1) by auto
    ultimately show ?thesis
      using Group m(3,4) Cons.IH [OF m(3)] by simp
  qed
qed


lemma length_takeWhile_ge:
  "list_all P t \<Longrightarrow> take (length t) s = t \<Longrightarrow> length t \<le> length (takeWhile P s)"
proof (induction t arbitrary: s)
  case Nil
  then show ?case by simp
next
  case (Cons a t)
  then show ?case by (cases s) auto
qed

lemma splits_matchPieces: "splits ps s caps \<Longrightarrow> matchPieces ps s \<noteq> None"
proof (induction ps arbitrary: s caps)
  case Nil
  then show ?case by simp
next
  case (Cons p ps)
  show ?case
  proof (cases p)
    case (Lit l)
    with Cons.prems have "take (length l) s = l" "splits ps (drop (length l) s) caps"
      by simp_all
    with Cons.IH [of "drop (length l) s" caps] Lit show ?thesis by simp
  next
    case (Group c)
    with Cons.prems obtain t caps' where t: "caps = t # caps'" "t \<noteq> []"
      "list_all (in_class c) t" "take (length t) s = t" "splits ps (drop (length t) s) caps'"
      by (cases caps) simp_all
    have "length t \<le> length (takeWhile (in_class c) s)"
      using t(3,4) by (rule length_takeWhile_ge)
    moreover have "1 \<le> length t" using t(2) by (cases t) simp_all
    moreover have "matchPieces ps (drop (length t) s) \<noteq> None"
      using Cons.IH [OF t(5)] .
    ultimately have "tryLens (matchPieces ps) s (length (takeWhile (in_class c) s)) \<noteq> None"
      by (intro tryLens_not_None [of "length t"])
    with Group show ?thesis by simp
  qed
qed

lemma matchPieces_greedy:
  assumes "matchPieces (Group c # ps) s = Some (t # caps)"
    and "splits (Group c # ps) s (t' # caps')"
  shows "length t' \<le> length t"
proof (rule ccontr)
  assume "\<not> length t' \<le> length t"
  then have lt: "length t < length t'" by simp
  from assms(1) have "tryLens (matchPieces ps) s (length (takeWhile (in_class c) s)) = Some (t # caps)"
    by simp
  from tryLens_SomeD [OF this] obtain m where m: "m \<le> length (takeWhile (in_class c) s)"
    "t = take m s"
    "\<forall>m'. m < m' \<and> m' \<le> length (takeWhile (in_class c) s) \<longrightarrow> matchPieces ps (drop m' s) = None"
    by blast
  have lm: "length t = m"
    using m(1,2) length_takeWhile_le [of "in_class c" s] by simp
  from assms(2) have t': "list_all (in_class c) t'" "take (length t') s = t'"
    "splits ps (drop (length t') s) caps'"
    by simp_all
  have "length t' \<le> length (takeWhile (in_class c) s)"
    using t'(1,2) by (rule length_takeWhile_ge)
  with m(3) lt lm have "matchPieces ps (drop (length t') s) = None" by simp
  with splits_matchPieces [OF t'(3)] show False by simp
qed

lemma take_drop_append_iff:
  "(take (length l) s = l \<and> P (drop (length l) s)) \<longleftrightarrow> (\<exists>s'. s = l @ s' \<and> P s')"
proof
  assume a: "take (length l) s = l \<and> P (drop (length l) s)"
  have "take (length l) s @ drop (length l) s = s" by (rule append_take_drop_id)
  with a have "s = l @ drop (length l) s" by simp
  with a show "\<exists>s'. s = l @ s' \<and> P s'" by blast
next
  assume "\<exists>s'. s = l @ s' \<and> P s'"
  then show "take (length l) s = l \<and> P (drop (length l) s)" by auto
qed

lemma splits_two_groups:
  "splits [Group c1, Lit l1, Group c2, Lit l2] s caps \<longleftrightarrow>
     (\<exists>t1 t2. caps = [t1, t2] \<and> s = t1 @ l1 @ t2 @ l2 \<and>
        t1 \<noteq> [] \<and> list_all (in_class c1) t1 \<and> t2 \<noteq> [] \<and> list_all (in_class c2) t2)"
proof
  assume "splits [Group c1, Lit l1, Group c2, Lit l2] s caps"
  then obtain t1 caps1 where 1: "caps = t1 # caps1" "t1 \<noteq> []" "list_all (in_class c1) t1"
    "take (length t1) s = t1" "splits [Lit l1, Group c2, Lit l2] (drop (length t1) s) caps1"
    by (cases caps) simp_all
  from 1(4,5) obtain s1 where s1: "s = t1 @ s1" "splits [Lit l1, Group c2, Lit l2] s1 caps1"
    using take_drop_append_iff [of t1 s "\<lambda>x. splits [Lit l1, Group c2, Lit l2] x caps1"] by blast
  from s1(2) have "take (length l1) s1 = l1 \<and> splits [Group c2, Lit l2] (drop (length l1) s1) caps1"
    by simp
  then obtain s2 where s2: "s1 = l1 @ s2" "splits [Group c2, Lit l2] s2 caps1"
    using take_drop_append_iff [of l1 s1 "\<lambda>x. splits [Group c2, Lit l2] x caps1"] by blast
  from s2(2) obtain t2 caps2 where 2: "caps1 = t2 # caps2" "t2 \<noteq> []" "list_all (in_class c2) t2"
    "take (length t2) s2 = t2" "splits [Lit l2] (drop (length t2) s2) caps2"
    by (cases caps1) simp_all
  from 2(4,5) obtain s3 where s3: "s2 = t2 @ s3" "splits [Lit l2] s3 caps2"
    using take_drop_append_iff [of t2 s2 "\<lambda>x. splits [Lit l2] x caps2"] by blast
  from s3(2) have "take (length l2) s3 = l2 \<and> (drop (length l2) s3 = [] \<and> caps2 = [])"
    by simp
  then obtain s4 where s4: "s3 = l2 @ s4" "s4 = [] \<and> caps2 = []"
    using take_drop_append_iff [of l2 s3 "\<lambda>x. x = [] \<and> caps2 = []"] by blast
  show "\<exists>t1 t2. caps = [t1, t2] \<and> s = t1 @ l1 @ t2 @ l2 \<and>
        t1 \<noteq> [] \<and> list_all (in_class c1) t1 \<and> t2 \<noteq> [] \<and> list_all (in_class c2) t2"
    using 1(1,2,3) 2(1,2,3) s1(1) s2(1) s3(1) s4 by simp
next
  assume "\<exists>t1 t2. caps = [t1, t2] \<and> s = t1 @ l1 @ t2 @ l2 \<and>
        t1 \<noteq> [] \<and> list_all (in_class c1) t1 \<and> t2 \<noteq> [] \<and> list_all (in_class c2) t2"
  then show "splits [Group c1, Lit l1, Group c2, Lit l2] s caps"
    by auto
qed

lemma takeWhile_until:
  "a \<notin> set xs \<Longrightarrow> takeWhile (\<lambda>c. c \<noteq> a) (xs @ a # ys) = xs"
  by (induction xs) auto

lemma split_at_first:
  assumes "xs @ a # ys = xs' @ a # ys'" "a \<notin> set xs" "a \<notin> set xs'"
  shows "xs = xs' \<and> ys = ys'"
proof -
  have "takeWhile (\<lambda>c. c \<noteq> a) (xs @ a # ys) = xs"
    using assms(2) by (rule takeWhile_until)
  moreover have "takeWhile (\<lambda>c. c \<noteq> a) (xs' @ a # ys') = xs'"
    using assms(3) by (rule takeWhile_until)
  ultimately have "xs = xs'" using assms(1) by simp
  with assms(1) show ?thesis by simp
qed

lemma no_later_split:
  assumes "m @ t = z @ m @ t'" "z \<noteq> []" "m = m0 @ [a]"
  shows "a \<in> set t"
proof -
  have "t = drop (length m) (m @ t)" by simp
  also have "\<dots> = drop (length m) ((z @ m0) @ a # t')"
    using assms(1,3) by simp
  also have "\<dots> = drop (length m) (z @ m0) @ a # t'"
  proof -
    have "length m \<le> length (z @ m0)"
      using assms(2,3) by (cases z) simp_all
    then show ?thesis by simp
  qed
  finally show ?thesis by simp
qed


subsection \<open>The registry host pattern\<close>

lemma ecr_match_sound:
  assumes "matchPieces ecrURLPattern h = Some caps"
  shows "\<exists>N R. caps = [N, R] \<and> h = ecrHost N R \<and> ecrHostParts N R"
proof -
  from matchPieces_splits [OF assms]
  have "splits [Group Digit, Lit ''.dkr.ecr.'', Group NotDot, Lit ''.amazonaws.com''] h caps"
    by (simp only: ecrURLPattern_def)
  then obtain N R where *: "caps = [N, R]" "h = N @ ''.dkr.ecr.'' @ R @ ''.amazonaws.com''"
    "N \<noteq> []" "list_all (in_class Digit) N" "R \<noteq> []" "list_all (in_class NotDot) R"
    unfolding splits_two_groups by blast
  have "h = ecrHost N R" using *(2) by (simp only: ecrHost_def)
  moreover have "ecrHostParts N R" using *(3-6) by (simp add: ecrHostParts_def)
  ultimately show ?thesis using *(1) by blast
qed

lemma ecrHostParts_no_dot:
  assumes "ecrHostParts N R"
  shows "CHR ''.'' \<notin> set N"
proof
  assume "CHR ''.'' \<in> set N"
  moreover from assms have "\<forall>c \<in> set N. in_class Digit c"
    by (simp add: ecrHostParts_def list_all_iff)
  ultimately have "in_class Digit CHR ''.''" by blast
  then show False by simp
qed

lemma ecrHost_inject:
  assumes "ecrHost N R = ecrHost N' R'" "CHR ''.'' \<notin> set N" "CHR ''.'' \<notin> set N'"
  shows "N = N' \<and> R = R'"
proof -
  from assms(1) have "N @ CHR ''.'' # (''dkr.ecr.'' @ R @ ''.amazonaws.com'') =
      N' @ CHR ''.'' # (''dkr.ecr.'' @ R' @ ''.amazonaws.com'')"
    by (simp add: ecrHost_def)
  from split_at_first [OF this assms(2,3)]
  have "N = N'" and "''dkr.ecr.'' @ R @ ''.amazonaws.com'' = ''dkr.ecr.'' @ R' @ ''.amazonaws.com''"
    by blast+
  then show ?thesis by simp
qed

lemma ecr_match_complete:
  assumes "ecrHostParts N R"
  shows "matchPieces ecrURLPattern (ecrHost N R) = Some [N, R]"
proof -
  have "splits [Group Digit, Lit ''.dkr.ecr.'', Group NotDot, Lit ''.amazonaws.com'']
          (N @ ''.dkr.ecr.'' @ R @ ''.amazonaws.com'') [N, R]"
    unfolding splits_two_groups using assms by (simp add: ecrHostParts_def)
  then have "splits ecrURLPattern (ecrHost N R) [N, R]"
    by (simp only: ecrURLPattern_def ecrHost_def)
  from splits_matchPieces [OF this] obtain caps
    where caps: "matchPieces ecrURLPattern (ecrHost N R) = Some caps"
    by blast
  from ecr_match_sound [OF caps] obtain N' R' where *: "caps = [N', R']"
    "ecrHost N R = ecrHost N' R'" "ecrHostParts N' R'"
    by blast
  from ecrHost_inject [OF *(2) ecrHostParts_no_dot [OF assms] ecrHostParts_no_dot [OF *(3)]]
  show ?thesis using caps *(1) by simp
qed

lemma ecr_match_None_iff:
  "matchPieces ecrURLPattern h = None \<longleftrightarrow> \<not> (\<exists>N R. h = ecrHost N R \<and> ecrHostParts N R)"
proof
  assume n: "matchPieces ecrURLPattern h = None"
  show "\<not> (\<exists>N R. h = ecrHost N R \<and> ecrHostParts N R)"
  proof
    assume "\<exists>N R. h = ecrHost N R \<and> ecrHostParts N R"
    then obtain N R where "h = ecrHost N R" "ecrHostParts N R" by blast
    with ecr_match_complete [of N R] n show False by simp
  qed
next
  assume n: "\<not> (\<exists>N R. h = ecrHost N R \<and> ecrHostParts N R)"
  show "matchPieces ecrURLPattern h = None"
  proof (cases "matchPieces ecrURLPattern h")
    case None
    then show ?thesis .
  next
    case (Some caps)
    from ecr_match_sound [OF this] n show ?thesis by blast
  qed
qed

lemma parseECRURL_Inr_iff:
  "parseECRURL Parse url = Inr (N, R) \<longleftrightarrow>
     (\<exists>u. Parse url = Inr u \<and> Host u = ecrHost N R \<and> ecrHostParts N R)"
proof (cases "Parse url")
  case (Inl e)
  then show ?thesis by (simp add: parseECRURL_def)
next
  case (Inr u)
  show ?thesis
  proof (cases "matchPieces ecrURLPattern (Host u)")
    case None
    then have "\<not> (Host u = ecrHost N R \<and> ecrHostParts N R)"
      unfolding ecr_match_None_iff by blast
    moreover have "parseECRURL Parse url \<noteq> Inr (N, R)"
      using None Inr by (simp add: parseECRURL_def FindStringSubmatch_def)
    ultimately show ?thesis using Inr by simp
  next
    case (Some caps)
    from ecr_match_sound [OF this] obtain N' R' where *: "caps = [N', R']"
      "Host u = ecrHost N' R'" "ecrHostParts N' R'"
      by blast
    have p: "parseECRURL Parse url = Inr (N', R')"
      using Inr Some *(1) by (simp add: parseECRURL_def FindStringSubmatch_def)
    have "N = N' \<and> R = R'" if "Host u = ecrHost N R" "ecrHostParts N R"
    proof -
      from that(1) *(2) have "ecrHost N R = ecrHost N' R'" by simp
      from ecrHost_inject [OF this ecrHostParts_no_dot [OF that(2)] ecrHostParts_no_dot [OF *(3)]]
      show ?thesis .
    qed
    then have "(Host u = ecrHost N R \<and> ecrHostParts N R) \<longleftrightarrow> (N = N' \<and> R = R')"
      using *(2,3) by blast
    then show ?thesis
      using Inr p by auto
  qed
qed

lemma isECRURL_iff:
  "isECRURL Parse url \<longleftrightarrow>
     (\<exists>u N R. Parse url = Inr u \<and> Host u = ecrHost N R \<and> ecrHostParts N R)"
proof (cases "Parse url")
  case (Inl e)
  then show ?thesis by (simp add: isECRURL_def)
next
  case (Inr u)
  then show ?thesis
    by (simp add: isECRURL_def MatchString_def ecr_match_None_iff)
qed

lemma parseECRURL_Inl_iff:
  "(\<exists>e. parseECRURL Parse url = Inl e) \<longleftrightarrow> \<not> isECRURL Parse url"
proof -
  have "isECRURL Parse url \<longleftrightarrow> (\<exists>N R. parseECRURL Parse url = Inr (N, R))"
    unfolding isECRURL_iff parseECRURL_Inr_iff by blast
  then show ?thesis
    by (cases "parseECRURL Parse url") auto
qed

lemma matchPieces_Lit_append: "matchPieces (Lit l # ps) (l @ s) = matchPieces ps s"
  by simp

lemma matchPieces_Lit_Some:
  assumes "matchPieces (Lit l # ps) s = Some caps"
  shows "\<exists>s'. s = l @ s' \<and> matchPieces ps s' = Some caps"
proof -
  from assms have "take (length l) s = l \<and> matchPieces ps (drop (length l) s) = Some caps"
    by (simp split: if_splits)
  then show ?thesis
    using take_drop_append_iff [of l s "\<lambda>x. matchPieces ps x = Some caps"] by blast
qed

lemma append_eq_shorter:
  assumes "xs @ ys = xs' @ ys'" "length xs \<le> length xs'"
  shows "\<exists>z. xs' = xs @ z \<and> ys = z @ ys'"
proof -
  from assms have "xs = take (length xs) xs'" "ys = drop (length xs) xs' @ ys'"
    by (simp_all add: append_eq_append_conv_if)
  moreover have "xs' = take (length xs) xs' @ drop (length xs) xs'" by simp
  ultimately have "xs' = xs @ drop (length xs) xs'" by simp
  with \<open>ys = drop (length xs) xs' @ ys'\<close> show ?thesis by blast
qed

subsection \<open>The pattern of the keys to import\<close>

lemma importKey_splits:
  "splits [Group AnyNotNL, Lit ''/_manifests/tags/'', Group AnyNotNL, Lit ''/current/link'']
     (R @ ''/_manifests/tags/'' @ T @ ''/current/link'') [R, T] \<longleftrightarrow> importKeyParts R T"
  unfolding splits_two_groups by (auto simp: importKeyParts_def)

lemma import_match_sound:
  assumes "matchPieces importKeyPattern key = Some caps"
  shows "\<exists>R T. caps = [R, T] \<and> key = importKey R T \<and> importKeyParts R T"
proof -
  from assms obtain s where s: "key = ''/docker/registry/v2/repositories/'' @ s"
    "matchPieces [Group AnyNotNL, Lit ''/_manifests/tags/'', Group AnyNotNL, Lit ''/current/link'']
       s = Some caps"
    unfolding importKeyPattern_def using matchPieces_Lit_Some by blast
  from matchPieces_splits [OF s(2)] obtain R T where *: "caps = [R, T]"
    "s = R @ ''/_manifests/tags/'' @ T @ ''/current/link''"
    "R \<noteq> []" "list_all (in_class AnyNotNL) R" "T \<noteq> []" "list_all (in_class AnyNotNL) T"
    unfolding splits_two_groups by blast
  have "key = importKey R T" using s(1) *(2) by (simp only: importKey_def)
  moreover have "importKeyParts R T" using *(3-6) by (simp add: importKeyParts_def)
  ultimately show ?thesis using *(1) by blast
qed

lemma import_match_rest:
  "matchPieces importKeyPattern (importKey R T) =
   matchPieces [Group AnyNotNL, Lit ''/_manifests/tags/'', Group AnyNotNL, Lit ''/current/link'']
     (R @ ''/_manifests/tags/'' @ T @ ''/current/link'')"
  unfolding importKeyPattern_def importKey_def by (rule matchPieces_Lit_append)

lemma import_match_exists:
  assumes "importKeyParts R T"
  shows "matchPieces importKeyPattern (importKey R T) \<noteq> None"
  unfolding import_match_rest
  by (rule splits_matchPieces [of _ _ "[R, T]"]) (simp only: importKey_splits assms)

lemma import_match_None_iff:
  "matchPieces importKeyPattern key = None \<longleftrightarrow>
     \<not> (\<exists>R T. key = importKey R T \<and> importKeyParts R T)"
proof
  assume n: "matchPieces importKeyPattern key = None"
  show "\<not> (\<exists>R T. key = importKey R T \<and> importKeyParts R T)"
  proof
    assume "\<exists>R T. key = importKey R T \<and> importKeyParts R T"
    then obtain R T where "key = importKey R T" "importKeyParts R T" by blast
    with import_match_exists [of R T] n show False by simp
  qed
next
  assume n: "\<not> (\<exists>R T. key = importKey R T \<and> importKeyParts R T)"
  show "matchPieces importKeyPattern key = None"
  proof (cases "matchPieces importKeyPattern key")
    case None
    then show ?thesis .
  next
    case (Some caps)
    from import_match_sound [OF this] n show ?thesis by blast
  qed
qed

lemma import_match_longest:
  assumes "matchPieces importKeyPattern (importKey R' T') = Some [R, T]" "importKeyParts R' T'"
  shows "length R' \<le> length R"
proof -
  from assms(1)
  have "matchPieces
          [Group AnyNotNL, Lit ''/_manifests/tags/'', Group AnyNotNL, Lit ''/current/link'']
          (R' @ ''/_manifests/tags/'' @ T' @ ''/current/link'') = Some [R, T]"
    by (simp only: import_match_rest)
  moreover
  have "splits [Group AnyNotNL, Lit ''/_manifests/tags/'', Group AnyNotNL, Lit ''/current/link'']
          (R' @ ''/_manifests/tags/'' @ T' @ ''/current/link'') [R', T']"
    using assms(2) by (simp only: importKey_splits)
  ultimately show ?thesis by (rule matchPieces_greedy)
qed

lemma importKey_eq_cases:
  assumes "importKey R T = importKey R' T'" "length R \<le> length R'"
  shows "(R = R' \<and> T = T') \<or> CHR ''/'' \<in> set T"
proof -
  from assms(1)
  have "R @ (''/_manifests/tags/'' @ T @ ''/current/link'') =
        R' @ (''/_manifests/tags/'' @ T' @ ''/current/link'')"
    by (simp add: importKey_def)
  from append_eq_shorter [OF this assms(2)] obtain z where z: "R' = R @ z"
    "''/_manifests/tags/'' @ T @ ''/current/link'' = z @ ''/_manifests/tags/'' @ T' @ ''/current/link''"
    by blast
  from z(2) have "(''/_manifests/tags/'' @ T) @ ''/current/link'' =
      (z @ ''/_manifests/tags/'' @ T') @ ''/current/link''"
    by simp
  then have e: "''/_manifests/tags/'' @ T = z @ ''/_manifests/tags/'' @ T'"
    by (simp only: append_same_eq)
  show ?thesis
  proof (cases "z = []")
    case True
    with z(1) e show ?thesis by simp
  next
    case False
    have "''/_manifests/tags/'' = ''/_manifests/tags'' @ [CHR ''/'']" by simp
    from no_later_split [OF e False this] show ?thesis by simp
  qed
qed

lemma import_match_exact:
  assumes "importKeyParts R T" "CHR ''/'' \<notin> set T"
  shows "matchPieces importKeyPattern (importKey R T) = Some [R, T]"
proof -
  from import_match_exists [OF assms(1)] obtain caps
    where caps: "matchPieces importKeyPattern (importKey R T) = Some caps"
    by blast
  from import_match_sound [OF caps] obtain R' T' where *: "caps = [R', T']"
    "importKey R T = importKey R' T'" "importKeyParts R' T'"
    by blast
  from caps *(1) have "matchPieces importKeyPattern (importKey R T) = Some [R', T']" by simp
  from import_match_longest [OF this assms(1)] have "length R \<le> length R'" .
  from importKey_eq_cases [OF *(2) this] assms(2) have "R = R' \<and> T = T'" by blast
  with caps *(1) show ?thesis by simp
qed

lemma matchImportKey_Some_iff:
  "matchImportKey key = Some (R, T) \<longleftrightarrow> matchPieces importKeyPattern key = Some [R, T]"
proof (cases "matchPieces importKeyPattern key")
  case None
  then show ?thesis by (simp add: matchImportKey_def FindStringSubmatch_def)
next
  case (Some caps)
  from import_match_sound [OF this] obtain R' T' where "caps = [R', T']" by blast
  with Some show ?thesis by (auto simp: matchImportKey_def FindStringSubmatch_def)
qed

lemma matchImportKey_None_iff:
  "matchImportKey key = None \<longleftrightarrow> matchPieces importKeyPattern key = None"
proof (cases "matchPieces importKeyPattern key")
  case None
  then show ?thesis by (simp add: matchImportKey_def FindStringSubmatch_def)
next
  case (Some caps)
  from import_match_sound [OF this] obtain R' T' where "caps = [R', T']" by blast
  with Some show ?thesis by (simp add: matchImportKey_def FindStringSubmatch_def)
qed

section \<open>The steps of \<open>Basic\<close>\<close>

lemma Index_None_iff: "Index s a = None \<longleftrightarrow> a \<notin> set s"
  by (induction s) (auto split: option.splits)

lemma Index_first: "a \<notin> set u \<Longrightarrow> Index (u @ a # p) a = Some (length u)"
  by (induction u) auto

lemma SplitN2_first: "a \<notin> set u \<Longrightarrow> SplitN2 (u @ a # p) a = [u, p]"
  by (simp add: SplitN2_def Index_first)

lemma SplitN2_none: "a \<notin> set s \<Longrightarrow> SplitN2 s a = [s]"
  using Index_None_iff [of s a] by (simp add: SplitN2_def)

lemma SplitN2_length: "length (SplitN2 s a) = 2 \<longleftrightarrow> a \<in> set s"
  using Index_None_iff [of s a] by (cases "Index s a") (simp_all add: SplitN2_def)

lemma SplitN2_parts:
  assumes "a \<in> set s"
  shows "SplitN2 s a = [takeWhile (\<lambda>c. c \<noteq> a) s, tl (dropWhile (\<lambda>c. c \<noteq> a) s)]"
proof -
  from assms obtain u p where s: "s = u @ a # p" "a \<notin> set u"
    by (meson split_list_first)
  have "takeWhile (\<lambda>c. c \<noteq> a) (u @ a # p) = u" "dropWhile (\<lambda>c. c \<noteq> a) (u @ a # p) = a # p"
    using s(2) by (induction u) auto
  with s SplitN2_first [OF s(2), of p] show ?thesis by simp
qed

lemma Basic_valid:
  "valid (Now w) c \<Longrightarrow> Basic w c = (Return (username c) (password c), c, [])"
  by (simp add: Basic_def valid_def)

lemma Basic_exchange_error:
  assumes "\<not> valid (Now w) c" "GetAuthorizationToken w (registryIds c) = Inl err"
  shows "Basic w c = (Return [] [], c, [registryIds c])"
  using assms by (simp add: Basic_def valid_def registryIds_def Let_def)

lemma Basic_no_records:
  assumes "\<not> valid (Now w) c" "GetAuthorizationToken w (registryIds c) = Inr []"
  shows "Basic w c = (Return [] [], c, [registryIds c])"
  using assms by (simp add: Basic_def valid_def registryIds_def Let_def)

lemma Basic_nil_record:
  assumes "\<not> valid (Now w) c" "GetAuthorizationToken w (registryIds c) = Inr (None # rest)"
  shows "Basic w c = (NilDereference, c, [registryIds c])"
  using assms by (simp add: Basic_def valid_def registryIds_def Let_def)

lemma Basic_decode_error:
  assumes "\<not> valid (Now w) c"
    "GetAuthorizationToken w (registryIds c) = Inr (Some authData # rest)"
    "DecodeString w (StringValue (AuthorizationToken authData)) = None"
  shows "Basic w c = (Return [] [], c, [registryIds c])"
  using assms by (simp add: Basic_def valid_def registryIds_def Let_def)

lemma Basic_no_colon:
  assumes "\<not> valid (Now w) c"
    "GetAuthorizationToken w (registryIds c) = Inr (Some authData # rest)"
    "DecodeString w (StringValue (AuthorizationToken authData)) = Some decoded"
    "length (SplitN2 decoded CHR '':'') \<noteq> 2"
  shows "Basic w c = (Return [] [], c, [registryIds c])"
  using assms by (simp add: Basic_def valid_def registryIds_def Let_def)

lemma sint_minus_Hour: "sint (- Hour) = - 3600000000000"
  by (simp add: Hour_def)

lemma Basic_refreshed:
  assumes "\<not> valid (Now w) c"
    "GetAuthorizationToken w (registryIds c) = Inr (Some authData # rest)"
    "DecodeString w (StringValue (AuthorizationToken authData)) = Some (u @ CHR '':'' # p)"
    "CHR '':'' \<notin> set u"
  shows "Basic w c =
    (Return u p,
     c\<lparr>username := u, password := p,
       expiry :=
         (case lifetime c of
            None \<Rightarrow> TimeValue (ExpiresAt authData) - 3600000000000
          | Some d \<Rightarrow>
              if 0 < sint d then Now w + sint d
              else TimeValue (ExpiresAt authData) - 3600000000000)\<rparr>,
     [registryIds c])"
  using assms
  by (simp add: Basic_def valid_def registryIds_def Let_def SplitN2_first Add_def
      sint_minus_Hour split: option.splits)

lemma Basic_calls:
  "snd (snd (Basic w c)) = (if valid (Now w) c then [] else [registryIds c])"
  by (simp add: Basic_def valid_def registryIds_def Let_def
      split: sum.splits option.splits list.splits)

lemma failed_refresh_result:
  assumes "\<not> valid (Now w) c"
    and "(\<exists>err. GetAuthorizationToken w (registryIds c) = Inl err) \<or>
         GetAuthorizationToken w (registryIds c) = Inr [] \<or>
         (\<exists>authData rest.
            GetAuthorizationToken w (registryIds c) = Inr (Some authData # rest) \<and>
            (DecodeString w (StringValue (AuthorizationToken authData)) = None \<or>
             (\<exists>decoded.
                DecodeString w (StringValue (AuthorizationToken authData)) = Some decoded \<and>
                length (SplitN2 decoded CHR '':'') \<noteq> 2)))"
  shows "Basic w c = (Return [] [], c, [registryIds c])"
  using assms(2)
proof (elim disjE exE conjE)
  fix err
  assume "GetAuthorizationToken w (registryIds c) = Inl err"
  with assms(1) show ?thesis by (rule Basic_exchange_error)
next
  assume "GetAuthorizationToken w (registryIds c) = Inr []"
  with assms(1) show ?thesis by (rule Basic_no_records)
next
  fix authData rest
  assume "GetAuthorizationToken w (registryIds c) = Inr (Some authData # rest)"
    "DecodeString w (StringValue (AuthorizationToken authData)) = None"
  with assms(1) show ?thesis by (rule Basic_decode_error)
next
  fix authData rest decoded
  assume "GetAuthorizationToken w (registryIds c) = Inr (Some authData # rest)"
    "DecodeString w (StringValue (AuthorizationToken authData)) = Some decoded"
    "length (SplitN2 decoded CHR '':'') \<noteq> 2"
  with assms(1) show ?thesis by (rule Basic_no_colon)
qed

lemma Basic_second_call:
  assumes "\<not> valid (Now w) c"
    and "GetAuthorizationToken w (registryIds c) = Inr (Some authData # rest)"
    and "DecodeString w (StringValue (AuthorizationToken authData)) = Some (u @ CHR '':'' # p)"
    and "CHR '':'' \<notin> set u" "u \<noteq> []" "p \<noteq> []"
    and "lifetime c = None \<or> Now w' < expiry (fst (snd (Basic w c)))"
  shows "Basic w' (fst (snd (Basic w c))) = (Return u p, fst (snd (Basic w c)), [])"
proof -
  let ?c' = "fst (snd (Basic w c))"
  from Basic_refreshed [OF assms(1-4)]
  have c': "username ?c' = u" "password ?c' = p" "lifetime ?c' = lifetime c"
    by simp_all
  with assms(5-7) have "valid (Now w') ?c'"
    by (simp add: valid_def Before_def)
  from Basic_valid [OF this] c' show ?thesis by simp
qed

section \<open>The steps of \<open>GetContent\<close>\<close>

lemma pull_fails:
  assumes "Cmd_Run w tr [''docker'', ''pull'', remote m @ ''/'' @ repo @ '':'' @ tag] = Some err"
  shows "pullAndImportFromECR w m repo tag tr =
     (Some err, tr @ [CmdRun [''docker'', ''pull'', remote m @ ''/'' @ repo @ '':'' @ tag]])"
  using assms by (simp add: pullAndImportFromECR_def Let_def)

lemma GetContent_hit:
  "StorageDriver_GetContent w tr path = Inr out \<Longrightarrow>
   GetContent w d path tr = (Inr out, tr @ [DriverGetContent path])"
  by (simp add: GetContent_def Let_def)

lemma GetContent_invalid_path:
  assumes "StorageDriver_GetContent w tr path = Inl err" "matchImportKey path = None"
  shows "GetContent w d path tr = (Inl (''invalid path: '' @ path), tr @ [DriverGetContent path])"
  using assms by (simp add: GetContent_def matchImportKey_def Let_def split: if_splits)

lemma GetContent_import:
  assumes "StorageDriver_GetContent w tr path = Inl err" "matchImportKey path = Some (repo, tag)"
  shows "GetContent w d path tr =
     (case pullAndImportFromECR w d repo tag (tr @ [DriverGetContent path]) of
        (Some err', tr2) \<Rightarrow> (Inl (''failed to pull from ECR: '' @ err'), tr2)
      | (None, tr2) \<Rightarrow> (StorageDriver_GetContent w tr2 path, tr2 @ [DriverGetContent path]))"
  using assms by (simp add: GetContent_def matchImportKey_def Let_def split: if_splits)

lemma GetContent_pull_fails:
  assumes "StorageDriver_GetContent w tr path = Inl err"
    "matchImportKey path = Some (repo, tag)"
    "Cmd_Run w (tr @ [DriverGetContent path])
       [''docker'', ''pull'', remote d @ ''/'' @ repo @ '':'' @ tag] = Some perr"
  shows "GetContent w d path tr =
     (Inl (''failed to pull from ECR: '' @ perr),
      tr @ [DriverGetContent path, CmdRun [''docker'', ''pull'', remote d @ ''/'' @ repo @ '':'' @ tag]])"
  unfolding GetContent_import [OF assms(1,2)] pull_fails [OF assms(3)] by simp

subsection \<open>A key outside the shape of a miss key\<close>

lemma split_at_last:
  assumes "xs @ a # ys = xs' @ a # ys'" "a \<notin> set ys" "a \<notin> set ys'"
  shows "xs = xs' \<and> ys = ys'"
proof -
  from assms(1) have "rev (xs @ a # ys) = rev (xs' @ a # ys')" by simp
  then have "rev ys @ a # rev xs = rev ys' @ a # rev xs'" by simp
  moreover have "a \<notin> set (rev ys)" "a \<notin> set (rev ys')" using assms(2,3) by simp_all
  ultimately have "rev ys = rev ys' \<and> rev xs = rev xs'" by (rule split_at_first)
  then show ?thesis by simp
qed

lemma slash_tag_key_not_missKeyShape:
  "\<not> missKeyShape ''/docker/registry/v2/repositories/a/_manifests/tags/x/y/current/link''"
proof
  assume "missKeyShape ''/docker/registry/v2/repositories/a/_manifests/tags/x/y/current/link''"
  then obtain P R T where
    key: "''/docker/registry/v2/repositories/a/_manifests/tags/x/y/current/link'' =
          ''/'' @ P @ ''/repositories/'' @ R @ ''/_manifests/tags/'' @ T @ ''/current/link''"
    and T: "CHR ''/'' \<notin> set T"
    unfolding missKeyShape_def by blast
  from key have "(''/'' @ P @ ''/repositories/'' @ R @ ''/_manifests/tags'' @ CHR ''/'' # T) @
      ''/current/link'' =
      (''/docker/registry/v2/repositories/a/_manifests/tags/x'' @ CHR ''/'' # ''y'') @
      ''/current/link''"
    by simp
  then have "''/'' @ P @ ''/repositories/'' @ R @ ''/_manifests/tags'' @ CHR ''/'' # T =
      ''/docker/registry/v2/repositories/a/_manifests/tags/x'' @ CHR ''/'' # ''y''"
    by (simp only: append_same_eq)
  then have e: "(''/'' @ P @ ''/repositories/'' @ R @ ''/_manifests/tags'') @ CHR ''/'' # T =
      ''/docker/registry/v2/repositories/a/_manifests/tags/x'' @ CHR ''/'' # ''y''"
    by simp
  have y: "CHR ''/'' \<notin> set ''y''" by simp
  from split_at_last [OF e T y]
  have "''/'' @ P @ ''/repositories/'' @ R @ ''/_manifests/tags'' =
      ''/docker/registry/v2/repositories/a/_manifests/tags/x''"
    by (rule conjunct1)
  then have "last (''/'' @ P @ ''/repositories/'' @ R @ ''/_manifests/tags'') =
      last ''/docker/registry/v2/repositories/a/_manifests/tags/x''"
    by (rule arg_cong)
  then show False by simp
qed

section \<open>The claims\<close>

text \<open>
  C1, at a cached pair whose expiry has passed and no lifetime configured: the pair is returned
  and no exchange call is made.
\<close>

theorem Basic_reuses_expired_pair:
  "lifetime staleCredentials = None \<and>
   \<not> Before (Now (testOutside 2000 freshToken)) (expiry staleCredentials) \<and>
   Basic (testOutside 2000 freshToken) staleCredentials =
     (Return ''AWS'' ''old'', staleCredentials, [])"
  by (simp add: Basic_def staleCredentials_def testOutside_def Before_def)

text \<open>
  C2, as the code has it. A key is matched exactly when it is
  \<open>/docker/registry/v2/repositories/R/_manifests/tags/T/current/link\<close> for non-empty texts
  \<open>R\<close> and \<open>T\<close> without a newline; the prefix is fixed and both texts may contain \<open>/\<close>.
  The match is such a pair \<open>(R, T)\<close>, with the longest \<open>R\<close> among all such pairs, and it
  is the pair itself when \<open>T\<close> has no \<open>/\<close>. Every other key gives no match.
\<close>

theorem matchImportKey_shape:
  "(matchImportKey key = None \<longleftrightarrow> \<not> (\<exists>R T. key = importKey R T \<and> importKeyParts R T)) \<and>
   (matchImportKey key = Some (R, T) \<longrightarrow> key = importKey R T \<and> importKeyParts R T) \<and>
   (matchImportKey key = Some (R, T) \<and> key = importKey R' T' \<and> importKeyParts R' T' \<longrightarrow>
      length R' \<le> length R) \<and>
   (importKeyParts R T \<and> CHR ''/'' \<notin> set T \<longrightarrow> matchImportKey (importKey R T) = Some (R, T))"
proof (intro conjI impI)
  show "matchImportKey key = None \<longleftrightarrow> \<not> (\<exists>R T. key = importKey R T \<and> importKeyParts R T)"
    by (simp only: matchImportKey_None_iff import_match_None_iff)
next
  assume "matchImportKey key = Some (R, T)"
  then have "matchPieces importKeyPattern key = Some [R, T]"
    by (simp only: matchImportKey_Some_iff)
  from import_match_sound [OF this] show "key = importKey R T" "importKeyParts R T"
    by simp_all
next
  assume "matchImportKey key = Some (R, T) \<and> key = importKey R' T' \<and> importKeyParts R' T'"
  then have "matchPieces importKeyPattern (importKey R' T') = Some [R, T]" "importKeyParts R' T'"
    by (auto simp only: matchImportKey_Some_iff)
  then show "length R' \<le> length R" by (rule import_match_longest)
next
  assume "importKeyParts R T \<and> CHR ''/'' \<notin> set T"
  then have "matchPieces importKeyPattern (importKey R T) = Some [R, T]"
    using import_match_exact [of R T] by blast
  then show "matchImportKey (importKey R T) = Some (R, T)"
    by (simp only: matchImportKey_Some_iff)
qed

theorem matchImportKey_shape_witness:
  "importKeyParts ''packoff/cv'' ''1.0.0'' \<and> CHR ''/'' \<notin> set ''1.0.0'' \<and>
   importKey ''packoff/cv'' ''1.0.0'' =
     ''/docker/registry/v2/repositories/packoff/cv/_manifests/tags/1.0.0/current/link'' \<and>
   matchImportKey ''/docker/registry/v2/repositories/packoff/cv/_manifests/tags/1.0.0/current/link'' =
     Some (''packoff/cv'', ''1.0.0'') \<and>
   length ''packoff/cv'' \<le> length ''packoff/cv'' \<and>
   matchImportKey ''/docker/registry/v2/repositories/packoff/cv/_manifests/tags/1.0.0'' = None"
proof -
  have parts: "importKeyParts ''packoff/cv'' ''1.0.0''" "CHR ''/'' \<notin> set ''1.0.0''"
    by (simp_all add: importKeyParts_def)
  have key: "importKey ''packoff/cv'' ''1.0.0'' =
      ''/docker/registry/v2/repositories/packoff/cv/_manifests/tags/1.0.0/current/link''"
    by (simp add: importKey_def)
  have none: "matchImportKey ''/docker/registry/v2/repositories/packoff/cv/_manifests/tags/1.0.0'' = None"
    by code_simp
  from matchImportKey_shape [of "importKey ''packoff/cv'' ''1.0.0''" "''packoff/cv''" "''1.0.0''"
      "''packoff/cv''" "''1.0.0''"] parts
  have "matchImportKey (importKey ''packoff/cv'' ''1.0.0'') = Some (''packoff/cv'', ''1.0.0'')"
    by blast
  with parts key none show ?thesis by simp
qed

text \<open>
  C2 as stated fails: a key whose tag segment contains \<open>/\<close> is matched, with the tag
  \<open>x/y\<close>.
\<close>

theorem matchImportKey_slash_in_tag:
  "matchImportKey ''/docker/registry/v2/repositories/a/_manifests/tags/x/y/current/link'' =
     Some (''a'', ''x/y'')"
  by code_simp

text \<open>
  C3, as the code has it. When the wrapped driver fails, the key matches and the pull fails, the
  caller receives the error \<open>failed to pull from ECR: \<close> followed by the text of the error
  of the pull; the driver was asked once and the pull is the only command that was run. The
  error does not name the image unless the error of the pull does.
\<close>

theorem GetContent_pull_failure:
  assumes "StorageDriver_GetContent w tr path = Inl err"
    and "matchImportKey path = Some (repo, tag)"
    and "Cmd_Run w (tr @ [DriverGetContent path])
           [''docker'', ''pull'', remote d @ ''/'' @ repo @ '':'' @ tag] = Some perr"
  shows "GetContent w d path tr =
     (Inl (''failed to pull from ECR: '' @ perr),
      tr @ [DriverGetContent path,
            CmdRun [''docker'', ''pull'', remote d @ ''/'' @ repo @ '':'' @ tag]])"
  using assms by (rule GetContent_pull_fails)

theorem GetContent_pull_failure_witness:
  "GetContent nothingWorks testFetcher
     ''/docker/registry/v2/repositories/packoff/cv/_manifests/tags/1.0.0/current/link'' [] =
     (Inl ''failed to pull from ECR: exit status 1'',
      [DriverGetContent
         ''/docker/registry/v2/repositories/packoff/cv/_manifests/tags/1.0.0/current/link'',
       CmdRun [''docker'', ''pull'',
         ''123456789012.dkr.ecr.us-west-2.amazonaws.com/packoff/cv:1.0.0'']])"
proof -
  let ?path = "''/docker/registry/v2/repositories/packoff/cv/_manifests/tags/1.0.0/current/link''"
  have 1: "StorageDriver_GetContent nothingWorks [] ?path = Inl ''Path not found''"
    by (simp add: nothingWorks_def)
  have 2: "matchImportKey ?path = Some (''packoff/cv'', ''1.0.0'')"
    by code_simp
  have 3: "Cmd_Run nothingWorks ([] @ [DriverGetContent ?path])
      [''docker'', ''pull'', remote testFetcher @ ''/'' @ ''packoff/cv'' @ '':'' @ ''1.0.0''] =
      Some ''exit status 1''"
    by (simp add: nothingWorks_def)
  from GetContent_pull_failure [OF 1 2 3] show ?thesis
    by (simp add: testFetcher_def)
qed

text \<open>
  C3 as stated fails: the error that the caller receives after a failed pull of
  \<open>123456789012.dkr.ecr.us-west-2.amazonaws.com/packoff/cv:1.0.0\<close> does not contain the name
  of the image.
\<close>

theorem GetContent_error_without_image:
  "fst (GetContent nothingWorks testFetcher
     ''/docker/registry/v2/repositories/packoff/cv/_manifests/tags/1.0.0/current/link'' []) =
     Inl ''failed to pull from ECR: exit status 1'' \<and>
   \<not> sublist ''123456789012.dkr.ecr.us-west-2.amazonaws.com/packoff/cv:1.0.0''
     ''failed to pull from ECR: exit status 1''"
proof -
  have "\<not> sublist ''123456789012.dkr.ecr.us-west-2.amazonaws.com/packoff/cv:1.0.0''
     ''failed to pull from ECR: exit status 1''"
    by code_simp
  moreover have "fst (GetContent nothingWorks testFetcher
     ''/docker/registry/v2/repositories/packoff/cv/_manifests/tags/1.0.0/current/link'' []) =
     Inl ''failed to pull from ECR: exit status 1''"
    by code_simp
  ultimately show ?thesis by simp
qed

text \<open>
  C4, as the code has it. A successful refresh stores as expiry the current time plus the
  lifetime when a lifetime is configured and is positive, and the stated expiry of the token
  minus one hour when no lifetime is configured or the configured lifetime is zero or negative.
\<close>

theorem Basic_refresh_expiry:
  assumes "\<not> valid (Now w) c"
    and "GetAuthorizationToken w (registryIds c) = Inr (Some authData # rest)"
    and "DecodeString w (StringValue (AuthorizationToken authData)) = Some decoded"
    and "CHR '':'' \<in> set decoded"
  shows "(lifetime c = None \<longrightarrow>
            expiry (fst (snd (Basic w c))) = TimeValue (ExpiresAt authData) - 3600000000000) \<and>
         (lifetime c = Some d \<and> 0 < sint d \<longrightarrow>
            expiry (fst (snd (Basic w c))) = Now w + sint d) \<and>
         (lifetime c = Some d \<and> sint d \<le> 0 \<longrightarrow>
            expiry (fst (snd (Basic w c))) = TimeValue (ExpiresAt authData) - 3600000000000)"
proof -
  from assms(4) obtain u p where d: "decoded = u @ CHR '':'' # p" "CHR '':'' \<notin> set u"
    by (meson split_list_first)
  from assms(3) d(1)
  have "DecodeString w (StringValue (AuthorizationToken authData)) = Some (u @ CHR '':'' # p)"
    by simp
  from Basic_refreshed [OF assms(1,2) this d(2)] show ?thesis
    by (simp split: option.splits)
qed

theorem Basic_refresh_expiry_witness:
  "expiry (fst (snd (Basic (testOutside 2000 freshToken) (newCredentials ''123456789012'' None)))) =
     39600000000000 \<and>
   expiry (fst (snd (Basic (testOutside 2000 freshToken)
     (newCredentials ''123456789012'' (Some 1800000000000))))) = 1800000002000 \<and>
   expiry (fst (snd (Basic (testOutside 2000 freshToken)
     (newCredentials ''123456789012'' (Some (- 5)))))) = 39600000000000"
proof -
  let ?w = "testOutside 2000 freshToken"
  let ?ad = "\<lparr>AuthorizationToken = Some ''QVdTOm5ldw=='', ExpiresAt = Some 43200000000000\<rparr>"
  have h: "\<not> valid (Now ?w) (newCredentials ''123456789012'' l)"
    "GetAuthorizationToken ?w (registryIds (newCredentials ''123456789012'' l)) = Inr (Some ?ad # [])"
    "DecodeString ?w (StringValue (AuthorizationToken ?ad)) = Some ''AWS:new''"
    "CHR '':'' \<in> set ''AWS:new''" for l
    by (simp_all add: valid_def newCredentials_def testOutside_def freshToken_def testDecode_def
        StringValue_def)
  have s: "sint (1800000000000 :: Duration) = 1800000000000" "sint (- 5 :: Duration) = - 5"
    by simp_all
  from Basic_refresh_expiry [OF h, of None]
    Basic_refresh_expiry [OF h, of "Some 1800000000000" 1800000000000]
    Basic_refresh_expiry [OF h, of "Some (- 5)" "- 5"] s
  show ?thesis
    by (simp add: newCredentials_def testOutside_def TimeValue_def)
qed

text \<open>
  C4 as stated fails: with a configured lifetime of zero, a refresh at time 2000 of a token that
  expires at 43200000000000 stores the expiry of the token minus one hour, not the current time
  plus the lifetime.
\<close>

theorem Basic_zero_lifetime_expiry:
  "lifetime (newCredentials ''123456789012'' (Some 0)) = Some 0 \<and>
   Add (Now (testOutside 2000 freshToken)) 0 = 2000 \<and>
   expiry (fst (snd (Basic (testOutside 2000 freshToken) (newCredentials ''123456789012'' (Some 0))))) =
     39600000000000"
  by (simp add: Basic_def newCredentials_def testOutside_def freshToken_def testDecode_def
      StringValue_def TimeValue_def SplitN2_def Add_def Hour_def Let_def)

text \<open>
  C5. A call that finds no valid cached pair and whose refresh fails (the exchange call returns
  an error, it returns no authorization record, the token does not decode, or the decoded token
  does not split into two parts) returns the pair of empty strings.
\<close>

theorem Basic_failed_refresh_empty_pair:
  assumes "\<not> valid (Now w) c"
    and "(\<exists>err. GetAuthorizationToken w (registryIds c) = Inl err) \<or>
         GetAuthorizationToken w (registryIds c) = Inr [] \<or>
         (\<exists>authData rest.
            GetAuthorizationToken w (registryIds c) = Inr (Some authData # rest) \<and>
            (DecodeString w (StringValue (AuthorizationToken authData)) = None \<or>
             (\<exists>decoded.
                DecodeString w (StringValue (AuthorizationToken authData)) = Some decoded \<and>
                length (SplitN2 decoded CHR '':'') \<noteq> 2)))"
  shows "fst (Basic w c) = Return [] []"
  using failed_refresh_result [OF assms] by simp

theorem Basic_failed_refresh_empty_pair_witness:
  "\<not> valid 2000 expiredCredentials \<and>
   fst (Basic (testOutside 2000 (Inl ''RequestError: send request failed'')) expiredCredentials) =
     Return [] [] \<and>
   fst (Basic (testOutside 2000 (Inr [])) expiredCredentials) = Return [] [] \<and>
   fst (Basic (testOutside 2000
     (Inr [Some \<lparr>AuthorizationToken = Some ''%%%'', ExpiresAt = None\<rparr>])) expiredCredentials) =
     Return [] [] \<and>
   fst (Basic (testOutside 2000
     (Inr [Some \<lparr>AuthorizationToken = Some ''QVdT'', ExpiresAt = None\<rparr>])) expiredCredentials) =
     Return [] []"
proof -
  have v: "\<not> valid 2000 expiredCredentials"
    by (simp add: valid_def expiredCredentials_def Before_def)
  have n: "Now (testOutside 2000 a) = 2000" for a
    by (simp add: testOutside_def)
  have g: "GetAuthorizationToken (testOutside 2000 a) ids = a" for a ids
    by (simp add: testOutside_def)
  have d: "DecodeString (testOutside 2000 a) = testDecode" for a
    by (simp add: testOutside_def)
  have t: "testDecode ''%%%'' = None" "testDecode ''QVdT'' = Some ''AWS''"
    "length (SplitN2 ''AWS'' CHR '':'') \<noteq> 2"
    by (simp_all add: testDecode_def SplitN2_def)
  have 1: "fst (Basic (testOutside 2000 (Inl ''RequestError: send request failed''))
      expiredCredentials) = Return [] []"
    by (rule Basic_failed_refresh_empty_pair) (simp_all add: n g v)
  have 2: "fst (Basic (testOutside 2000 (Inr [])) expiredCredentials) = Return [] []"
    by (rule Basic_failed_refresh_empty_pair) (simp_all add: n g v)
  have 3: "fst (Basic (testOutside 2000
      (Inr [Some \<lparr>AuthorizationToken = Some ''%%%'', ExpiresAt = None\<rparr>])) expiredCredentials) =
      Return [] []"
    by (rule Basic_failed_refresh_empty_pair) (simp_all add: n g d v t StringValue_def)
  have 4: "fst (Basic (testOutside 2000
      (Inr [Some \<lparr>AuthorizationToken = Some ''QVdT'', ExpiresAt = None\<rparr>])) expiredCredentials) =
      Return [] []"
    by (rule Basic_failed_refresh_empty_pair) (simp_all add: n g d v t StringValue_def)
  from v 1 2 3 4 show ?thesis by simp
qed

text \<open>
  C7, as the code has it. When the wrapped driver fails, with whatever error, and the key is not
  \<open>/docker/registry/v2/repositories/R/_manifests/tags/T/current/link\<close> for non-empty texts
  \<open>R\<close> and \<open>T\<close> without a newline (\<open>T\<close> may contain \<open>/\<close>), the caller receives the
  error \<open>invalid path: \<close> followed by the key; the driver was asked once and no command was
  run.
\<close>

theorem GetContent_unmatched_key:
  assumes "StorageDriver_GetContent w tr path = Inl err"
    and "\<not> (\<exists>repository tag. path = importKey repository tag \<and> importKeyParts repository tag)"
  shows "GetContent w d path tr =
     (Inl (''invalid path: '' @ path), tr @ [DriverGetContent path])"
proof -
  from assms(2) have "matchPieces importKeyPattern path = None"
    using import_match_None_iff [of path] by blast
  then have "matchImportKey path = None"
    using matchImportKey_None_iff [of path] by blast
  with assms(1) show ?thesis by (rule GetContent_invalid_path)
qed

theorem GetContent_unmatched_key_witness:
  "\<not> (\<exists>repository tag.
        ''/docker/registry/v2/repositories/packoff/cv/_layers'' = importKey repository tag \<and>
        importKeyParts repository tag) \<and>
   GetContent nothingWorks testFetcher ''/docker/registry/v2/repositories/packoff/cv/_layers'' [] =
     (Inl ''invalid path: /docker/registry/v2/repositories/packoff/cv/_layers'',
      [DriverGetContent ''/docker/registry/v2/repositories/packoff/cv/_layers''])"
proof -
  let ?path = "''/docker/registry/v2/repositories/packoff/cv/_layers''"
  have 1: "StorageDriver_GetContent nothingWorks [] ?path = Inl ''Path not found''"
    by (simp add: nothingWorks_def)
  have "matchPieces importKeyPattern ?path = None"
    by code_simp
  then have 2: "\<not> (\<exists>repository tag. ?path = importKey repository tag \<and>
      importKeyParts repository tag)"
    using import_match_None_iff [of ?path] by blast
  from GetContent_unmatched_key [OF 1 2, of testFetcher] 2 show ?thesis
    by simp
qed

text \<open>
  C7 as stated fails: the key \<open>.../_manifests/tags/x/y/current/link\<close> is not of the shape
  of a miss key, since its tag segment contains \<open>/\<close>, and yet, when the wrapped driver
  fails, the image \<open>a:x/y\<close> is pulled and the error is the one of the failed pull, not
  \<open>invalid path\<close>.
\<close>

theorem GetContent_imports_slash_tag:
  "\<not> missKeyShape ''/docker/registry/v2/repositories/a/_manifests/tags/x/y/current/link'' \<and>
   StorageDriver_GetContent nothingWorks []
     ''/docker/registry/v2/repositories/a/_manifests/tags/x/y/current/link'' =
     Inl ''Path not found'' \<and>
   GetContent nothingWorks testFetcher
     ''/docker/registry/v2/repositories/a/_manifests/tags/x/y/current/link'' [] =
     (Inl ''failed to pull from ECR: exit status 1'',
      [DriverGetContent ''/docker/registry/v2/repositories/a/_manifests/tags/x/y/current/link'',
       CmdRun [''docker'', ''pull'', ''123456789012.dkr.ecr.us-west-2.amazonaws.com/a:x/y'']])"
proof -
  let ?path = "''/docker/registry/v2/repositories/a/_manifests/tags/x/y/current/link''"
  have 1: "StorageDriver_GetContent nothingWorks [] ?path = Inl ''Path not found''"
    by (simp add: nothingWorks_def)
  have 2: "matchImportKey ?path = Some (''a'', ''x/y'')"
    by code_simp
  have 3: "Cmd_Run nothingWorks ([] @ [DriverGetContent ?path])
      [''docker'', ''pull'', remote testFetcher @ ''/'' @ ''a'' @ '':'' @ ''x/y''] =
      Some ''exit status 1''"
    by (simp add: nothingWorks_def)
  from GetContent_pull_fails [OF 1 2 3]
  have "GetContent nothingWorks testFetcher ?path [] =
     (Inl ''failed to pull from ECR: exit status 1'',
      [DriverGetContent ?path,
       CmdRun [''docker'', ''pull'', ''123456789012.dkr.ecr.us-west-2.amazonaws.com/a:x/y'']])"
    by (simp add: testFetcher_def)
  with slash_tag_key_not_missKeyShape 1 show ?thesis by simp
qed

text \<open>
  C8. \<open>isECRURL\<close> holds exactly when the URL parses and its host is
  \<open>N.dkr.ecr.R.amazonaws.com\<close> for a non-empty text \<open>N\<close> of digits and a non-empty text
  \<open>R\<close> without a dot; \<open>parseECRURL\<close> returns \<open>(N, R)\<close> exactly then, and an error exactly
  when \<open>isECRURL\<close> is false.
\<close>

theorem isECRURL_parseECRURL:
  "(isECRURL Parse url \<longleftrightarrow>
      (\<exists>u N R. Parse url = Inr u \<and> Host u = ecrHost N R \<and> ecrHostParts N R)) \<and>
   (parseECRURL Parse url = Inr (N, R) \<longleftrightarrow>
      (\<exists>u. Parse url = Inr u \<and> Host u = ecrHost N R \<and> ecrHostParts N R)) \<and>
   (isECRURL Parse url \<longleftrightarrow> (\<exists>N R. parseECRURL Parse url = Inr (N, R))) \<and>
   (\<not> isECRURL Parse url \<longleftrightarrow> (\<exists>e. parseECRURL Parse url = Inl e))"
proof (intro conjI)
  show "isECRURL Parse url \<longleftrightarrow>
      (\<exists>u N R. Parse url = Inr u \<and> Host u = ecrHost N R \<and> ecrHostParts N R)"
    by (rule isECRURL_iff)
  show "parseECRURL Parse url = Inr (N, R) \<longleftrightarrow>
      (\<exists>u. Parse url = Inr u \<and> Host u = ecrHost N R \<and> ecrHostParts N R)"
    by (rule parseECRURL_Inr_iff)
  show "isECRURL Parse url \<longleftrightarrow> (\<exists>N R. parseECRURL Parse url = Inr (N, R))"
    unfolding isECRURL_iff parseECRURL_Inr_iff by blast
  show "\<not> isECRURL Parse url \<longleftrightarrow> (\<exists>e. parseECRURL Parse url = Inl e)"
    using parseECRURL_Inl_iff [of Parse url] by simp
qed

theorem isECRURL_parseECRURL_witness:
  "isECRURL testParse ''https://123456789012.dkr.ecr.us-west-2.amazonaws.com'' \<and>
   parseECRURL testParse ''https://123456789012.dkr.ecr.us-west-2.amazonaws.com'' =
     Inr (''123456789012'', ''us-west-2'') \<and>
   \<not> isECRURL testParse ''https://registry-1.docker.io'' \<and>
   parseECRURL testParse ''https://registry-1.docker.io'' =
     Inl ''URL does not match ECR registry pattern: registry-1.docker.io'' \<and>
   \<not> isECRURL testParse ''://'' \<and>
   parseECRURL testParse ''://'' = Inl ''invalid registry URL: missing protocol scheme''"
proof -
  let ?url = "''https://123456789012.dkr.ecr.us-west-2.amazonaws.com''"
  have "testParse ?url = Inr \<lparr>Host = ecrHost ''123456789012'' ''us-west-2''\<rparr>"
    by (simp add: testParse_def ecrHost_def)
  moreover have "ecrHostParts ''123456789012'' ''us-west-2''"
    by (simp add: ecrHostParts_def)
  ultimately have "\<exists>u. testParse ?url = Inr u \<and> Host u = ecrHost ''123456789012'' ''us-west-2'' \<and>
      ecrHostParts ''123456789012'' ''us-west-2''"
    by simp
  with isECRURL_parseECRURL [of testParse ?url "''123456789012''" "''us-west-2''"]
  have 1: "isECRURL testParse ?url"
    "parseECRURL testParse ?url = Inr (''123456789012'', ''us-west-2'')"
    by blast+
  have 2: "parseECRURL testParse ''https://registry-1.docker.io'' =
     Inl ''URL does not match ECR registry pattern: registry-1.docker.io''"
    "parseECRURL testParse ''://'' = Inl ''invalid registry URL: missing protocol scheme''"
    by code_simp+
  with isECRURL_parseECRURL [of testParse "''https://registry-1.docker.io''"]
    isECRURL_parseECRURL [of testParse "''://''"]
  have 3: "\<not> isECRURL testParse ''https://registry-1.docker.io''" "\<not> isECRURL testParse ''://''"
    by blast+
  from 1 2 3 show ?thesis by simp
qed

text \<open>
  C9. When the refresh succeeds, the decoded token is split at its first colon: the text before
  it is the user name, the whole text after it is the password, colons included.
\<close>

theorem Basic_splits_at_first_colon:
  assumes "\<not> valid (Now w) c"
    and "GetAuthorizationToken w (registryIds c) = Inr (Some authData # rest)"
    and "DecodeString w (StringValue (AuthorizationToken authData)) = Some (u @ CHR '':'' # p)"
    and "CHR '':'' \<notin> set u"
  shows "fst (Basic w c) = Return u p \<and>
         username (fst (snd (Basic w c))) = u \<and> password (fst (snd (Basic w c))) = p"
  using Basic_refreshed [OF assms] by simp

theorem Basic_splits_at_first_colon_witness:
  "testDecode ''QVdTOnNlY3JldHBhc3M6d2l0aDpjb2xvbnM='' = Some ''AWS:secretpass:with:colons'' \<and>
   fst (Basic (testOutside 2000
     (Inr [Some \<lparr>AuthorizationToken = Some ''QVdTOnNlY3JldHBhc3M6d2l0aDpjb2xvbnM='',
                 ExpiresAt = Some 43200000000000\<rparr>])) expiredCredentials) =
     Return ''AWS'' ''secretpass:with:colons''"
proof -
  let ?ad = "\<lparr>AuthorizationToken = Some ''QVdTOnNlY3JldHBhc3M6d2l0aDpjb2xvbnM='',
               ExpiresAt = Some 43200000000000\<rparr>"
  let ?w = "testOutside 2000 (Inr [Some ?ad])"
  have t: "testDecode ''QVdTOnNlY3JldHBhc3M6d2l0aDpjb2xvbnM='' = Some ''AWS:secretpass:with:colons''"
    by (simp add: testDecode_def)
  have 1: "\<not> valid (Now ?w) expiredCredentials"
    by (simp add: valid_def expiredCredentials_def Before_def testOutside_def)
  have 2: "GetAuthorizationToken ?w (registryIds expiredCredentials) = Inr (Some ?ad # [])"
    by (simp add: testOutside_def)
  have 3: "DecodeString ?w (StringValue (AuthorizationToken ?ad)) =
      Some (''AWS'' @ CHR '':'' # ''secretpass:with:colons'')"
    by (simp add: testOutside_def StringValue_def t)
  have 4: "CHR '':'' \<notin> set ''AWS''"
    by simp
  from Basic_splits_at_first_colon [OF 1 2 3 4] t show ?thesis by simp
qed

text \<open>
  C10. A call that finds no valid cached pair and whose refresh fails at one of the four points
  leaves the credentials as they were: user name, password and expiry are unchanged.
\<close>

theorem Basic_failed_refresh_keeps_cache:
  assumes "\<not> valid (Now w) c"
    and "(\<exists>err. GetAuthorizationToken w (registryIds c) = Inl err) \<or>
         GetAuthorizationToken w (registryIds c) = Inr [] \<or>
         (\<exists>authData rest.
            GetAuthorizationToken w (registryIds c) = Inr (Some authData # rest) \<and>
            (DecodeString w (StringValue (AuthorizationToken authData)) = None \<or>
             (\<exists>decoded.
                DecodeString w (StringValue (AuthorizationToken authData)) = Some decoded \<and>
                length (SplitN2 decoded CHR '':'') \<noteq> 2)))"
  shows "fst (snd (Basic w c)) = c"
  using failed_refresh_result [OF assms] by simp

theorem Basic_failed_refresh_keeps_cache_witness:
  "\<not> valid 2000 expiredCredentials \<and>
   fst (snd (Basic (testOutside 2000 (Inl ''RequestError: send request failed''))
     expiredCredentials)) = expiredCredentials \<and>
   fst (snd (Basic (testOutside 2000 (Inr [])) expiredCredentials)) = expiredCredentials \<and>
   fst (snd (Basic (testOutside 2000
     (Inr [Some \<lparr>AuthorizationToken = Some ''%%%'', ExpiresAt = None\<rparr>])) expiredCredentials)) =
     expiredCredentials \<and>
   fst (snd (Basic (testOutside 2000
     (Inr [Some \<lparr>AuthorizationToken = Some ''QVdT'', ExpiresAt = None\<rparr>])) expiredCredentials)) =
     expiredCredentials \<and>
   username expiredCredentials = ''AWS'' \<and> password expiredCredentials = ''old'' \<and>
   expiry expiredCredentials = 1000"
proof -
  have v: "\<not> valid 2000 expiredCredentials"
    by (simp add: valid_def expiredCredentials_def Before_def)
  have n: "Now (testOutside 2000 a) = 2000" for a
    by (simp add: testOutside_def)
  have g: "GetAuthorizationToken (testOutside 2000 a) ids = a" for a ids
    by (simp add: testOutside_def)
  have d: "DecodeString (testOutside 2000 a) = testDecode" for a
    by (simp add: testOutside_def)
  have t: "testDecode ''%%%'' = None" "testDecode ''QVdT'' = Some ''AWS''"
    "length (SplitN2 ''AWS'' CHR '':'') \<noteq> 2"
    by (simp_all add: testDecode_def SplitN2_def)
  have 1: "fst (snd (Basic (testOutside 2000 (Inl ''RequestError: send request failed''))
      expiredCredentials)) = expiredCredentials"
    by (rule Basic_failed_refresh_keeps_cache) (simp_all add: n g v)
  have 2: "fst (snd (Basic (testOutside 2000 (Inr [])) expiredCredentials)) = expiredCredentials"
    by (rule Basic_failed_refresh_keeps_cache) (simp_all add: n g v)
  have 3: "fst (snd (Basic (testOutside 2000
      (Inr [Some \<lparr>AuthorizationToken = Some ''%%%'', ExpiresAt = None\<rparr>])) expiredCredentials)) =
      expiredCredentials"
    by (rule Basic_failed_refresh_keeps_cache) (simp_all add: n g d v t StringValue_def)
  have 4: "fst (snd (Basic (testOutside 2000
      (Inr [Some \<lparr>AuthorizationToken = Some ''QVdT'', ExpiresAt = None\<rparr>])) expiredCredentials)) =
      expiredCredentials"
    by (rule Basic_failed_refresh_keeps_cache) (simp_all add: n g d v t StringValue_def)
  have 5: "username expiredCredentials = ''AWS'' \<and> password expiredCredentials = ''old'' \<and>
      expiry expiredCredentials = 1000"
    by (simp add: expiredCredentials_def)
  from v 1 2 3 4 5 show ?thesis by simp
qed

end
